theory Spec2Isabelle
  imports Main "HOL-Library.Word"
begin

section \<open>The fallback image downloader\<close>

text \<open>
  The script \<^verbatim>\<open>download_fallback_images.py\<close> fetches a fixed list of images over HTTP
  and stores each one at a fixed local path. Its three functions, \<^verbatim>\<open>ensure_directory\<close>,
  \<^verbatim>\<open>download_image\<close> and \<^verbatim>\<open>main\<close>, are embedded below as functions on an explicit
  world: the directories and files of the file system, the lines printed to standard
  output, and two histories (the GET requests issued and the calls of
  \<^verbatim>\<open>download_image\<close> with what they returned) that no function reads and that only
  serve to state in which order things happen.

  Everything the script cannot decide by itself is a field of the environment: what
  the server answers to a GET, and which file system operations the operating system
  permits. Every \<^verbatim>\<open>raise\<close> is a value: a function returns \<open>Inl\<close> of the exception or
  \<open>Inr\<close> of its result.
\<close>

subsection \<open>Exceptions\<close>

text \<open>
  \<open>exception\<close> holds the instances of Python's \<^verbatim>\<open>Exception\<close> that the library calls of
  the script raise: \<^verbatim>\<open>requests.RequestException\<close> for a network failure, its subclass
  \<^verbatim>\<open>HTTPError\<close> raised by \<^verbatim>\<open>raise_for_status\<close>, and \<^verbatim>\<open>OSError\<close> for the file system.
  \<open>base_exception\<close> adds \<^verbatim>\<open>SystemExit\<close>, which \<^verbatim>\<open>sys.exit\<close> raises and which is not an
  instance of \<^verbatim>\<open>Exception\<close>.
\<close>

datatype os_error =
    FileExistsError
  | FileNotFoundError
  | NotADirectoryError
  | IsADirectoryError
  | PermissionError
  | OtherOSError string

datatype exception =
    RequestException string
  | HTTPError string
  | OSError os_error

datatype base_exception =
    Exception exception
  | SystemExit int

subsection \<open>The world and the environment\<close>

type_synonym byte = "8 word"

text \<open>A resolved path is the list of its components below the working directory.\<close>

type_synonym path = "string list"

text \<open>
  A response carries its status code, the bytes of the body that arrive, and the
  exception that ends the transfer early, if there is one. The environment says what
  \<^verbatim>\<open>requests.get\<close> does for a URL (it raises, or it returns a response), which
  directories the operating system lets the process make, which paths it lets the
  process open for writing (the same answer whether or not the file is there), and
  which writes fail (for a file, the bytes it holds and the chunk to append).
  Standard output is always writable: \<^verbatim>\<open>print\<close> does not fail.
\<close>

record response =
  status_code :: nat
  body :: "byte list"
  stream_error :: "exception option"

record env =
  http :: "string \<Rightarrow> exception + response"
  mkdir_permitted :: "path \<Rightarrow> bool"
  open_permitted :: "path \<Rightarrow> bool"
  write_error :: "path \<Rightarrow> byte list \<Rightarrow> byte list \<Rightarrow> exception option"

record world =
  dirs :: "path set"
  files :: "path \<rightharpoonup> byte list"
  stdout :: "string list"
  requests :: "string list"
  calls :: "(string \<times> string \<times> bool) list"

text \<open>\<^verbatim>\<open>print(s)\<close> appends one line to standard output.\<close>

definition print :: "string \<Rightarrow> world \<Rightarrow> world" where
  "print s w = w\<lparr>stdout := stdout w @ [s]\<rparr>"

text \<open>Several \<^verbatim>\<open>print\<close> statements in a row.\<close>

definition prints :: "string list \<Rightarrow> world \<Rightarrow> world" where
  "prints ls w = foldl (\<lambda>w' s. print s w') w ls"

subsection \<open>Paths and the file system\<close>

text \<open>
  A path string is cut at every \<^verbatim>\<open>/\<close>; empty components and \<^verbatim>\<open>.\<close> are dropped.
  The empty string names nothing (the operating system answers \<^verbatim>\<open>ENOENT\<close>).
  Symbolic links and \<^verbatim>\<open>..\<close> are not interpreted.
\<close>

fun split_sep :: "string \<Rightarrow> string \<Rightarrow> string list" where
  "split_sep acc [] = [rev acc]"
| "split_sep acc (c # cs) =
     (if c = CHR ''/'' then rev acc # split_sep [] cs else split_sep (c # acc) cs)"

definition resolve :: "string \<Rightarrow> path option" where
  "resolve name =
     (if name = [] then None
      else Some (filter (\<lambda>c. c \<noteq> [] \<and> c \<noteq> ''.'') (split_sep [] name)))"

text \<open>The working directory \<open>[]\<close> always exists.\<close>

definition isdir :: "world \<Rightarrow> path \<Rightarrow> bool" where
  "isdir w p = (p = [] \<or> p \<in> dirs w)"

definition path_exists :: "world \<Rightarrow> path \<Rightarrow> bool" where
  "path_exists w p = (isdir w p \<or> files w p \<noteq> None)"

text \<open>\<^verbatim>\<open>os.mkdir\<close>: one directory, whose parent must be a directory.\<close>

definition mkdir :: "env \<Rightarrow> path \<Rightarrow> world \<Rightarrow> exception + world" where
  "mkdir env p w =
     (if path_exists w p then Inl (OSError FileExistsError)
      else if \<not> path_exists w (butlast p) then Inl (OSError FileNotFoundError)
      else if \<not> isdir w (butlast p) then Inl (OSError NotADirectoryError)
      else if \<not> mkdir_permitted env p then Inl (OSError PermissionError)
      else Inr (w\<lparr>dirs := insert p (dirs w)\<rparr>))"

text \<open>
  \<^verbatim>\<open>os.makedirs(name, exist_ok)\<close> as the standard library defines it: when the parent
  of \<open>name\<close> does not exist it is made first, by a recursive call whose
  \<^verbatim>\<open>FileExistsError\<close> is ignored; then \<open>name\<close> is made with \<^verbatim>\<open>mkdir\<close>, whose error is
  ignored when \<open>exist_ok\<close> is set and \<open>name\<close> is a directory.
\<close>

function makedirs :: "env \<Rightarrow> path \<Rightarrow> bool \<Rightarrow> world \<Rightarrow> world \<times> (exception + unit)" where
  "makedirs env name exist_ok w =
     (case (if butlast name \<noteq> [] \<and> \<not> path_exists w (butlast name)
            then (case makedirs env (butlast name) exist_ok w of
                    (w', Inl x) \<Rightarrow>
                      if x = OSError FileExistsError then (w', Inr ()) else (w', Inl x)
                  | (w', Inr u) \<Rightarrow> (w', Inr u))
            else (w, Inr ())) of
        (w', Inl x) \<Rightarrow> (w', Inl x)
      | (w', Inr u) \<Rightarrow>
          (case mkdir env name w' of
             Inr w'' \<Rightarrow> (w'', Inr ())
           | Inl x \<Rightarrow>
               if \<not> exist_ok \<or> \<not> isdir w' name then (w', Inl x) else (w', Inr ())))"
  by pat_completeness auto
termination
proof (relation "measure (\<lambda>(e, name, exist_ok, w). length name)")
  fix env :: env and name :: path and exist_ok :: bool and w :: world
  assume "butlast name \<noteq> [] \<and> \<not> path_exists w (butlast name)"
  then have "name \<noteq> []" by auto
  then show "((env, butlast name, exist_ok, w), (env, name, exist_ok, w))
      \<in> measure (\<lambda>(e, name, exist_ok, w). length name)"
    by simp
qed simp

declare makedirs.simps [simp del]

text \<open>
  \<^verbatim>\<open>def ensure_directory(path): os.makedirs(path, exist_ok=True)\<close>
\<close>

definition ensure_directory :: "env \<Rightarrow> string \<Rightarrow> world \<Rightarrow> world \<times> (exception + unit)" where
  "ensure_directory env path w =
     (case resolve path of
        None \<Rightarrow> (w, Inl (OSError FileNotFoundError))
      | Some p \<Rightarrow> makedirs env p True w)"

subsection \<open>Text\<close>

text \<open>\<^verbatim>\<open>str(n)\<close> for a natural number: its decimal digits.\<close>

definition digit_char :: "nat \<Rightarrow> char" where
  "digit_char d = char_of (48 + d)"

function str_nat :: "nat \<Rightarrow> string" where
  "str_nat n = (if n < 10 then [digit_char n] else str_nat (n div 10) @ [digit_char (n mod 10)])"
  by pat_completeness auto
termination
  by (relation "measure id") auto

declare str_nat.simps [simp del]

text \<open>The characters outside ASCII that the script prints, as their UTF-8 bytes.\<close>

definition check_mark :: string where
  "check_mark = [CHR 0xE2, CHR 0x9C, CHR 0x93]"

definition ballot_x :: string where
  "ballot_x = [CHR 0xE2, CHR 0x9C, CHR 0x97]"

definition inbox_tray :: string where
  "inbox_tray = [CHR 0xF0, CHR 0x9F, CHR 0x93, CHR 0xA5]"

definition check_mark_button :: string where
  "check_mark_button = [CHR 0xE2, CHR 0x9C, CHR 0x85]"

definition warning_sign :: string where
  "warning_sign = [CHR 0xE2, CHR 0x9A, CHR 0xA0, CHR 0xEF, CHR 0xB8, CHR 0x8F]"

text \<open>\<^verbatim>\<open>str(e)\<close> for an exception: its message.\<close>

fun str_os_error :: "os_error \<Rightarrow> string" where
  "str_os_error FileExistsError = ''[Errno 17] File exists''"
| "str_os_error FileNotFoundError = ''[Errno 2] No such file or directory''"
| "str_os_error NotADirectoryError = ''[Errno 20] Not a directory''"
| "str_os_error IsADirectoryError = ''[Errno 21] Is a directory''"
| "str_os_error PermissionError = ''[Errno 13] Permission denied''"
| "str_os_error (OtherOSError m) = m"

fun str_exception :: "exception \<Rightarrow> string" where
  "str_exception (RequestException m) = m"
| "str_exception (HTTPError m) = m"
| "str_exception (OSError x) = str_os_error x"

subsection \<open>The HTTP client\<close>

text \<open>
  \<^verbatim>\<open>requests.get(url, stream=True)\<close> either raises or returns a response whose body has
  not been read yet. \<^verbatim>\<open>raise_for_status\<close> raises \<^verbatim>\<open>HTTPError\<close> for the status codes from
  400 to 599 and for no other, as the \<^verbatim>\<open>requests\<close> library defines it.
\<close>

definition requests_get :: "env \<Rightarrow> string \<Rightarrow> world \<Rightarrow> world \<times> (exception + response)" where
  "requests_get env url w = (w\<lparr>requests := requests w @ [url]\<rparr>, http env url)"

definition raise_for_status :: "response \<Rightarrow> exception + unit" where
  "raise_for_status r =
     (if 400 \<le> status_code r \<and> status_code r < 500
        then Inl (HTTPError (str_nat (status_code r) @ '' Client Error''))
      else if 500 \<le> status_code r \<and> status_code r < 600
        then Inl (HTTPError (str_nat (status_code r) @ '' Server Error''))
      else Inr ())"

text \<open>
  \<^verbatim>\<open>response.iter_content(chunk_size)\<close> yields the body in pieces of \<open>chunk_size\<close> bytes,
  the last one shorter when the length is not a multiple; when the transfer breaks,
  the iteration raises after the pieces received so far.
\<close>

function chunks_of :: "nat \<Rightarrow> 'a list \<Rightarrow> 'a list list" where
  "chunks_of n xs = (if n = 0 \<or> xs = [] then [] else take n xs # chunks_of n (drop n xs))"
  by pat_completeness auto
termination
  by (relation "measure (\<lambda>(n, xs). length xs)") auto

declare chunks_of.simps [simp del]

definition iter_content :: "response \<Rightarrow> nat \<Rightarrow> byte list list \<times> exception option" where
  "iter_content r chunk_size = (chunks_of chunk_size (body r), stream_error r)"

subsection \<open>Writing a file\<close>

text \<open>
  \<^verbatim>\<open>open(local_path, 'wb')\<close> creates the file or empties the one that is there; the
  handle it returns is the resolved path. \<^verbatim>\<open>f.write(chunk)\<close> appends to the file.
\<close>

definition open_wb :: "env \<Rightarrow> string \<Rightarrow> world \<Rightarrow> exception + (world \<times> path)" where
  "open_wb env local_path w =
     (case resolve local_path of
        None \<Rightarrow> Inl (OSError FileNotFoundError)
      | Some p \<Rightarrow>
          if isdir w p then Inl (OSError IsADirectoryError)
          else if \<not> path_exists w (butlast p) then Inl (OSError FileNotFoundError)
          else if \<not> isdir w (butlast p) then Inl (OSError NotADirectoryError)
          else if \<not> open_permitted env p then Inl (OSError PermissionError)
          else Inr (w\<lparr>files := (files w)(p \<mapsto> [])\<rparr>, p))"

definition f_write :: "env \<Rightarrow> path \<Rightarrow> byte list \<Rightarrow> world \<Rightarrow> exception + world" where
  "f_write env f chunk w =
     (let written = (case files w f of None \<Rightarrow> [] | Some bs \<Rightarrow> bs)
      in case write_error env f written chunk of
           Some x \<Rightarrow> Inl x
         | None \<Rightarrow> Inr (w\<lparr>files := (files w)(f \<mapsto> written @ chunk)\<rparr>))"

text \<open>
  \<^verbatim>\<open>for chunk in response.iter_content(chunk_size=8192): f.write(chunk)\<close>
\<close>

fun write_chunks :: "env \<Rightarrow> path \<Rightarrow> byte list list \<Rightarrow> world \<Rightarrow> world \<times> (exception + unit)" where
  "write_chunks env f [] w = (w, Inr ())"
| "write_chunks env f (chunk # rest) w =
     (case f_write env f chunk w of
        Inl x \<Rightarrow> (w, Inl x)
      | Inr w' \<Rightarrow> write_chunks env f rest w')"

definition write_stream ::
  "env \<Rightarrow> path \<Rightarrow> byte list list \<times> exception option \<Rightarrow> world \<Rightarrow> world \<times> (exception + unit)" where
  "write_stream env f stream w =
     (case write_chunks env f (fst stream) w of
        (w', Inl x) \<Rightarrow> (w', Inl x)
      | (w', Inr u) \<Rightarrow> (case snd stream of None \<Rightarrow> (w', Inr ()) | Some x \<Rightarrow> (w', Inl x)))"

subsection \<open>download\_image\<close>

text \<open>
  The body of the \<^verbatim>\<open>try\<close> block of \<^verbatim>\<open>download_image\<close>:
  \<^verbatim>\<open>
    print(f"Downloading: {url}")
    response = requests.get(url, stream=True)
    response.raise_for_status()
    with open(local_path, 'wb') as f:
        for chunk in response.iter_content(chunk_size=8192):
            f.write(chunk)
    print(f"(check mark) Saved to: {local_path}")
    return True
  \<close>
\<close>

definition download_image_try ::
  "env \<Rightarrow> string \<Rightarrow> string \<Rightarrow> world \<Rightarrow> world \<times> (base_exception + bool)" where
  "download_image_try env url local_path w =
     (case requests_get env url (print (''Downloading: '' @ url) w) of
        (w1, Inl x) \<Rightarrow> (w1, Inl (Exception x))
      | (w1, Inr response) \<Rightarrow>
          (case raise_for_status response of
             Inl x \<Rightarrow> (w1, Inl (Exception x))
           | Inr u \<Rightarrow>
               (case open_wb env local_path w1 of
                  Inl x \<Rightarrow> (w1, Inl (Exception x))
                | Inr (w2, f) \<Rightarrow>
                    (case write_stream env f (iter_content response 8192) w2 of
                       (w3, Inl x) \<Rightarrow> (w3, Inl (Exception x))
                     | (w3, Inr u) \<Rightarrow>
                         (print (check_mark @ '' Saved to: '' @ local_path) w3, Inr True)))))"

text \<open>
  The call returns \<open>b\<close>; the history of calls records it.
\<close>

definition returns :: "string \<Rightarrow> string \<Rightarrow> bool \<Rightarrow> world \<Rightarrow> world \<times> (base_exception + bool)" where
  "returns url local_path b w = (w\<lparr>calls := calls w @ [(url, local_path, b)]\<rparr>, Inr b)"

text \<open>
  The whole function: \<^verbatim>\<open>except Exception as e\<close> handles the instances of \<^verbatim>\<open>Exception\<close>,
  prints the failure and returns \<^verbatim>\<open>False\<close>; any other exception propagates.
\<close>

definition download_image ::
  "env \<Rightarrow> string \<Rightarrow> string \<Rightarrow> world \<Rightarrow> world \<times> (base_exception + bool)" where
  "download_image env url local_path w =
     (case download_image_try env url local_path w of
        (w', Inr b) \<Rightarrow> returns url local_path b w'
      | (w', Inl (Exception x)) \<Rightarrow>
          returns url local_path False
            (print (ballot_x @ '' Failed to download '' @ url @ '': '' @ str_exception x) w')
      | (w', Inl other) \<Rightarrow> (w', Inl other))"

subsection \<open>main\<close>

record descriptor =
  d_url :: string
  d_local_path :: string
  d_description :: string

definition images_to_download :: "descriptor list" where
  "images_to_download =
     [\<lparr>d_url = ''https://images.unsplash.com/photo-1489515217757-5fd1be406fef?auto=format&fit=crop&w=800&q=80'',
       d_local_path = ''public/images/fallbacks/attraction-fallback.jpg'',
       d_description = ''Fallback attraction image''\<rparr>,
      \<lparr>d_url = ''https://images.unsplash.com/photo-1467269204594-9661b134dd2b?auto=format&fit=crop&w=1600&q=80'',
       d_local_path = ''public/images/fallbacks/city-fallback.jpg'',
       d_description = ''Fallback city image''\<rparr>,
      \<lparr>d_url = ''https://images.unsplash.com/photo-1489515217757-5fd1be406fef?auto=format&fit=crop&w=1200&q=80'',
       d_local_path = ''public/images/fallbacks/hero-fallback.jpg'',
       d_description = ''Fallback hero image''\<rparr>,
      \<lparr>d_url = ''https://images.unsplash.com/photo-1488646953014-85cb44e25828?auto=format&fit=crop&w=1200&q=80'',
       d_local_path = ''public/images/fallbacks/seo-default.jpg'',
       d_description = ''SEO default meta image''\<rparr>,
      \<lparr>d_url = ''https://images.unsplash.com/photo-1469854523086-cc02fe5d8800?auto=format&fit=crop&w=1200&q=80'',
       d_local_path = ''public/images/fallbacks/about-page.jpg'',
       d_description = ''About page image''\<rparr>]"

text \<open>
  The loop of \<^verbatim>\<open>main\<close>, with \<open>success_count\<close> as its accumulator:
  \<^verbatim>\<open>
    for image_info in images_to_download:
        print(f"(inbox tray) {image_info['description']}")
        if download_image(image_info['url'], image_info['local_path']):
            success_count += 1
        print()
  \<close>
\<close>

fun download_all ::
  "env \<Rightarrow> descriptor list \<Rightarrow> nat \<Rightarrow> world \<Rightarrow> world \<times> (base_exception + nat)" where
  "download_all env [] success_count w = (w, Inr success_count)"
| "download_all env (image_info # rest) success_count w =
     (case download_image env (d_url image_info) (d_local_path image_info)
             (print (inbox_tray @ '' '' @ d_description image_info) w) of
        (w', Inl x) \<Rightarrow> (w', Inl x)
      | (w', Inr ok) \<Rightarrow>
          download_all env rest (if ok then success_count + 1 else success_count) (print [] w'))"

text \<open>
  \<^verbatim>\<open>main\<close> with its list of descriptors as a parameter; \<^verbatim>\<open>sys.exit(1)\<close> raises
  \<^verbatim>\<open>SystemExit(1)\<close>.
\<close>

definition main_on :: "env \<Rightarrow> descriptor list \<Rightarrow> world \<Rightarrow> world \<times> (base_exception + unit)" where
  "main_on env descriptors w =
     (case ensure_directory env ''public/images/fallbacks'' w of
        (w1, Inl x) \<Rightarrow> (w1, Inl (Exception x))
      | (w1, Inr u) \<Rightarrow>
          (let total_count = length descriptors in
           case download_all env descriptors 0
                  (print (''Starting download of fallback images...'' @ [CHR 0x0A]) w1) of
             (w2, Inl x) \<Rightarrow> (w2, Inl x)
           | (w2, Inr success_count) \<Rightarrow>
               (let w3 = print (''Download complete: '' @ str_nat success_count @ ''/'' @
                                str_nat total_count @ '' images downloaded successfully'') w2
                in if success_count = total_count
                   then (prints [check_mark_button @ '' All images downloaded successfully!'',
                                 CHR 0x0A # ''Next steps:'',
                                 ''1. Update config files to use local image paths'',
                                 ''2. Test the application to ensure images load correctly'',
                                 ''3. Commit changes to git''] w3,
                         Inr ())
                   else (print (warning_sign @
                           ''  Some images failed to download. Please check the errors above.'') w3,
                         Inl (SystemExit 1)))))"

definition main :: "env \<Rightarrow> world \<Rightarrow> world \<times> (base_exception + unit)" where
  "main env w = main_on env images_to_download w"

text \<open>
  The exit status of the process that runs \<^verbatim>\<open>main()\<close>: 0 when it returns, the argument
  of \<^verbatim>\<open>SystemExit\<close>, and 1 when another exception reaches the top level (the
  interpreter prints the traceback and exits with 1).
\<close>

fun exit_status :: "base_exception + unit \<Rightarrow> int" where
  "exit_status (Inr u) = 0"
| "exit_status (Inl (SystemExit n)) = n"
| "exit_status (Inl (Exception x)) = 1"

subsection \<open>What a call leaves behind\<close>

text \<open>
  The functions below are not part of the script: they say what the script's functions
  are proved to do. \<open>write_result\<close> gives the bytes that the loop over the chunks has
  written to the file \<open>f\<close>, which held \<open>written\<close>, and the exception that stopped it,
  if any; \<open>stream_result\<close> does so for a whole response written to a file just opened,
  where the transfer itself can break after the last chunk.
\<close>

fun write_result ::
  "env \<Rightarrow> path \<Rightarrow> byte list \<Rightarrow> byte list list \<Rightarrow> byte list \<times> exception option" where
  "write_result env f written [] = (written, None)"
| "write_result env f written (chunk # rest) =
     (case write_error env f written chunk of
        Some x \<Rightarrow> (written, Some x)
      | None \<Rightarrow> write_result env f (written @ chunk) rest)"

definition stream_result :: "env \<Rightarrow> path \<Rightarrow> response \<Rightarrow> byte list \<times> exception option" where
  "stream_result env f r =
     (case write_result env f [] (chunks_of 8192 (body r)) of
        (bs, Some x) \<Rightarrow> (bs, Some x)
      | (bs, None) \<Rightarrow> (bs, stream_error r))"

text \<open>
  The world after a call of \<^verbatim>\<open>download_image\<close> that failed with the exception \<open>x\<close>,
  and after one that succeeded: two more lines on standard output, one more request and
  one more call in the histories.
\<close>

definition failed :: "string \<Rightarrow> string \<Rightarrow> exception \<Rightarrow> world \<Rightarrow> world" where
  "failed url local_path x w =
     w\<lparr>stdout := stdout w @
         [''Downloading: '' @ url,
          ballot_x @ '' Failed to download '' @ url @ '': '' @ str_exception x],
       requests := requests w @ [url],
       calls := calls w @ [(url, local_path, False)]\<rparr>"

definition saved :: "string \<Rightarrow> string \<Rightarrow> world \<Rightarrow> world" where
  "saved url local_path w =
     w\<lparr>stdout := stdout w @
         [''Downloading: '' @ url, check_mark @ '' Saved to: '' @ local_path],
       requests := requests w @ [url],
       calls := calls w @ [(url, local_path, True)]\<rparr>"


text \<open>The calls of \<^verbatim>\<open>download_image\<close> and the requests made between two worlds.\<close>

definition new_calls :: "world \<Rightarrow> world \<Rightarrow> (string \<times> string \<times> bool) list" where
  "new_calls w w' = drop (length (calls w)) (calls w')"

definition new_requests :: "world \<Rightarrow> world \<Rightarrow> string list" where
  "new_requests w w' = drop (length (requests w)) (requests w')"

text \<open>
  The last step of \<^verbatim>\<open>makedirs\<close>: \<^verbatim>\<open>mkdir\<close> of the path itself, whose error is ignored when
  \<open>exist_ok\<close> is set and the path is a directory.
\<close>

definition make_last :: "env \<Rightarrow> path \<Rightarrow> bool \<Rightarrow> world \<Rightarrow> world \<times> (exception + unit)" where
  "make_last env name exist_ok w =
     (case mkdir env name w of
        Inr w' \<Rightarrow> (w', Inr ())
      | Inl x \<Rightarrow> if \<not> exist_ok \<or> \<not> isdir w name then (w, Inl x) else (w, Inr ()))"



text \<open>
  What \<^verbatim>\<open>main\<close> prints at its end: the summary line for \<open>s\<close> successes out of \<open>t\<close>
  downloads, and the lines that follow it.
\<close>

definition summary_line :: "nat \<Rightarrow> nat \<Rightarrow> string" where
  "summary_line s t =
     ''Download complete: '' @ str_nat s @ ''/'' @ str_nat t @ '' images downloaded successfully''"

definition closing_lines :: "bool \<Rightarrow> string list" where
  "closing_lines all_ok =
     (if all_ok
      then [check_mark_button @ '' All images downloaded successfully!'',
            CHR 0x0A # ''Next steps:'',
            ''1. Update config files to use local image paths'',
            ''2. Test the application to ensure images load correctly'',
            ''3. Commit changes to git'']
      else [warning_sign @ ''  Some images failed to download. Please check the errors above.''])"

text \<open>The calls in a history that returned \<open>True\<close>, and the arguments of all its calls.\<close>

definition successes :: "(string \<times> string \<times> bool) list \<Rightarrow> nat" where
  "successes cs = length (filter (\<lambda>(u, p, b). b) cs)"

definition targets :: "(string \<times> string \<times> bool) list \<Rightarrow> (string \<times> string) list" where
  "targets cs = map (\<lambda>(u, p, b). (u, p)) cs"

text \<open>The call that \<^verbatim>\<open>main\<close> makes for a descriptor, with what it returned.\<close>

definition call_of :: "descriptor \<Rightarrow> bool \<Rightarrow> string \<times> string \<times> bool" where
  "call_of d b = (d_url d, d_local_path d, b)"

text \<open>The history of a run in which every call returned \<open>True\<close>.\<close>

definition successful_calls :: "descriptor list \<Rightarrow> (string \<times> string \<times> bool) list" where
  "successful_calls ds = map (\<lambda>d. call_of d True) ds"

subsection \<open>Example worlds\<close>

definition empty_world :: world where
  "empty_world = \<lparr>dirs = {}, files = Map.empty, stdout = [], requests = [], calls = []\<rparr>"


definition ok_response :: "byte list \<Rightarrow> response" where
  "ok_response bs = \<lparr>status_code = 200, body = bs, stream_error = None\<rparr>"

definition not_found :: response where
  "not_found = \<lparr>status_code = 404, body = [], stream_error = None\<rparr>"

text \<open>An operating system that permits everything, in front of the server \<open>h\<close>.\<close>

definition permissive :: "(string \<Rightarrow> exception + response) \<Rightarrow> env" where
  "permissive h =
     \<lparr>http = h, mkdir_permitted = (\<lambda>p. True), open_permitted = (\<lambda>p. True),
      write_error = (\<lambda>f written chunk. None)\<rparr>"

text \<open>A server with one image, one missing page and no other host.\<close>

definition example_server :: "string \<Rightarrow> exception + response" where
  "example_server u =
     (if u = ''https://example.com/a.jpg'' then Inr (ok_response [0xFF, 0xD8, 0xFF])
      else if u = ''https://example.com/b.jpg'' then Inr not_found
      else Inl (RequestException ''Connection refused''))"

text \<open>A server that answers every request with status 200 and an empty body.\<close>

definition empty_server :: "string \<Rightarrow> exception + response" where
  "empty_server u = Inr (ok_response [])"

text \<open>The scenario of the specification: the first download succeeds, the second fails.\<close>

definition two_descriptors :: "descriptor list" where
  "two_descriptors =
     [\<lparr>d_url = ''https://example.com/a.jpg'',
       d_local_path = ''public/images/fallbacks/a.jpg'',
       d_description = ''An image''\<rparr>,
      \<lparr>d_url = ''https://example.com/b.jpg'',
       d_local_path = ''public/images/fallbacks/b.jpg'',
       d_description = ''A missing image''\<rparr>]"

section \<open>Properties\<close>

subsection \<open>Auxiliary facts about download\_image\<close>

lemma print_fields [simp]:
  "dirs (print s w) = dirs w" "files (print s w) = files w"
  "stdout (print s w) = stdout w @ [s]" "requests (print s w) = requests w"
  "calls (print s w) = calls w"
  by (simp_all add: print_def)


lemma open_wb_fs_cong:
  "dirs w1 = dirs w \<Longrightarrow> files w1 = files w \<Longrightarrow>
   open_wb env lp w1 =
     (case open_wb env lp w of
        Inl x \<Rightarrow> Inl x
      | Inr (w2, f) \<Rightarrow> Inr (w1\<lparr>files := (files w)(f \<mapsto> [])\<rparr>, f))"
  by (cases "resolve lp") (simp_all add: open_wb_def isdir_def path_exists_def)

lemma open_wb_Inr_world:
  "open_wb env lp w = Inr (w2, f) \<Longrightarrow> w2 = w\<lparr>files := (files w)(f \<mapsto> [])\<rparr>"
  using open_wb_fs_cong [of w w env lp] by simp

lemma write_chunks_result:
  "files w f = Some written \<Longrightarrow>
   write_chunks env f cs w =
     (w\<lparr>files := (files w)(f \<mapsto> fst (write_result env f written cs))\<rparr>,
      case snd (write_result env f written cs) of None \<Rightarrow> Inr () | Some x \<Rightarrow> Inl x)"
proof (induction cs arbitrary: w written)
  case Nil
  then show ?case by (simp add: map_upd_triv)
next
  case (Cons c cs)
  show ?case
  proof (cases "write_error env f written c")
    case None
    define w1 where "w1 = w\<lparr>files := (files w)(f \<mapsto> written @ c)\<rparr>"
    have f1: "files w1 f = Some (written @ c)" by (simp add: w1_def)
    have step: "f_write env f c w = Inr w1"
      using None Cons.prems by (simp add: f_write_def w1_def)
    have upd: "w1\<lparr>files := (files w1)(f \<mapsto> bs)\<rparr> = w\<lparr>files := (files w)(f \<mapsto> bs)\<rparr>" for bs
      by (simp add: w1_def)
    have res: "write_result env f written (c # cs) = write_result env f (written @ c) cs"
      using None by simp
    have "write_chunks env f (c # cs) w = write_chunks env f cs w1"
      by (simp only: write_chunks.simps step sum.case)
    also have "\<dots> = (w1\<lparr>files := (files w1)(f \<mapsto> fst (write_result env f (written @ c) cs))\<rparr>,
      case snd (write_result env f (written @ c) cs) of None \<Rightarrow> Inr () | Some x \<Rightarrow> Inl x)"
      by (rule Cons.IH [OF f1])
    finally show ?thesis
      by (simp only: upd res)
  next
    case (Some x)
    with Cons.prems show ?thesis by (simp add: f_write_def map_upd_triv)
  qed
qed

lemma write_stream_result:
  "files w f = Some [] \<Longrightarrow>
   write_stream env f (iter_content r 8192) w =
     (w\<lparr>files := (files w)(f \<mapsto> fst (stream_result env f r))\<rparr>,
      case snd (stream_result env f r) of None \<Rightarrow> Inr () | Some x \<Rightarrow> Inl x)"
  by (simp add: write_stream_def iter_content_def write_chunks_result stream_result_def
      split: prod.splits option.splits)

lemma download_image_eq:
  "download_image env url lp w =
     (case http env url of
        Inl x \<Rightarrow> (failed url lp x w, Inr False)
      | Inr r \<Rightarrow>
          (case raise_for_status r of
             Inl x \<Rightarrow> (failed url lp x w, Inr False)
           | Inr u \<Rightarrow>
               (case open_wb env lp w of
                  Inl x \<Rightarrow> (failed url lp x w, Inr False)
                | Inr (w2, f) \<Rightarrow>
                    (case stream_result env f r of
                       (bs, Some x) \<Rightarrow>
                         (failed url lp x (w\<lparr>files := (files w)(f \<mapsto> bs)\<rparr>), Inr False)
                     | (bs, None) \<Rightarrow>
                         (saved url lp (w\<lparr>files := (files w)(f \<mapsto> bs)\<rparr>), Inr True)))))"
proof (cases "http env url")
  case (Inl x)
  then show ?thesis
    by (simp add: download_image_def download_image_try_def requests_get_def returns_def
        failed_def print_def)
next
  case (Inr r)
  note get = this
  show ?thesis
  proof (cases "raise_for_status r")
    case (Inl x)
    with get show ?thesis
      by (simp add: download_image_def download_image_try_def requests_get_def returns_def
          failed_def print_def)
  next
    case (Inr u)
    note status = this
    define w1 where "w1 = (print (''Downloading: '' @ url) w)\<lparr>requests := requests w @ [url]\<rparr>"
    have fs: "dirs w1 = dirs w" "files w1 = files w" by (simp_all add: w1_def)
    have try_eq: "download_image_try env url lp w =
        (case open_wb env lp w1 of
           Inl x \<Rightarrow> (w1, Inl (Exception x))
         | Inr (w2, f) \<Rightarrow>
             (case write_stream env f (iter_content r 8192) w2 of
                (w3, Inl x) \<Rightarrow> (w3, Inl (Exception x))
              | (w3, Inr u) \<Rightarrow> (print (check_mark @ '' Saved to: '' @ lp) w3, Inr True)))"
      unfolding w1_def download_image_try_def requests_get_def using get status
      by (simp cong: sum.case_cong)
    show ?thesis
    proof (cases "open_wb env lp w")
      case (Inl x)
      then have "open_wb env lp w1 = Inl x"
        using open_wb_fs_cong [OF fs, of env lp] by simp
      with get status Inl show ?thesis
        by (simp add: download_image_def try_eq returns_def failed_def w1_def print_def)
    next
      case (Inr pr)
      obtain w2 f where pr: "pr = (w2, f)" by (cases pr)
      define w2' where "w2' = w1\<lparr>files := (files w)(f \<mapsto> [])\<rparr>"
      have o1: "open_wb env lp w1 = Inr (w2', f)"
        using open_wb_fs_cong [OF fs, of env lp] Inr pr by (simp add: w2'_def)
      have f2: "files w2' f = Some []" by (simp add: w2'_def)
      have ws: "write_stream env f (iter_content r 8192) w2' =
          (w1\<lparr>files := (files w)(f \<mapsto> fst (stream_result env f r))\<rparr>,
           case snd (stream_result env f r) of None \<Rightarrow> Inr () | Some x \<Rightarrow> Inl x)"
        unfolding write_stream_result [OF f2] by (simp add: w2'_def)
      obtain bs e where sr: "stream_result env f r = (bs, e)" by (cases "stream_result env f r")
      have t2: "download_image_try env url lp w =
          (case e of
             None \<Rightarrow> (print (check_mark @ '' Saved to: '' @ lp)
                        (w1\<lparr>files := (files w)(f \<mapsto> bs)\<rparr>), Inr True)
           | Some x \<Rightarrow> (w1\<lparr>files := (files w)(f \<mapsto> bs)\<rparr>, Inl (Exception x)))"
        by (simp add: try_eq o1 ws sr split: option.splits)
      show ?thesis
      proof (cases e)
        case None
        with get status Inr pr sr t2 show ?thesis
          by (simp add: download_image_def returns_def saved_def w1_def print_def)
      next
        case (Some x)
        with get status Inr pr sr t2 show ?thesis
          by (simp add: download_image_def returns_def failed_def w1_def print_def)
      qed
    qed
  qed
qed

lemma chunks_of_Nil [simp]: "chunks_of n [] = []"
  by (subst chunks_of.simps) simp

lemma chunks_of_0 [simp]: "chunks_of 0 xs = []"
  by (subst chunks_of.simps) simp

lemma chunks_of_step:
  "0 < n \<Longrightarrow> xs \<noteq> [] \<Longrightarrow> chunks_of n xs = take n xs # chunks_of n (drop n xs)"
  by (subst chunks_of.simps) simp

lemma concat_chunks_of: "0 < n \<Longrightarrow> concat (chunks_of n xs) = xs"
proof (induction n xs rule: chunks_of.induct)
  case (1 n xs)
  show ?case
  proof (cases "xs = []")
    case True
    then show ?thesis by simp
  next
    case False
    with 1 have "concat (chunks_of n (drop n xs)) = drop n xs" by simp
    with False 1(2) show ?thesis by (simp add: chunks_of_step)
  qed
qed



lemma write_result_prefix:
  "\<exists>k. k \<le> length cs \<and> fst (write_result env f written cs) = written @ concat (take k cs)
     \<and> (snd (write_result env f written cs) = None \<longrightarrow> k = length cs)"
proof (induction cs arbitrary: written)
  case Nil
  show ?case by simp
next
  case (Cons c cs)
  show ?case
  proof (cases "write_error env f written c")
    case (Some x)
    then have "0 \<le> length (c # cs) \<and>
        fst (write_result env f written (c # cs)) = written @ concat (take 0 (c # cs)) \<and>
        (snd (write_result env f written (c # cs)) = None \<longrightarrow> 0 = length (c # cs))"
      by simp
    then show ?thesis by (rule exI)
  next
    case None
    from Cons [of "written @ c"] obtain k where k: "k \<le> length cs \<and>
      fst (write_result env f (written @ c) cs) = (written @ c) @ concat (take k cs) \<and>
      (snd (write_result env f (written @ c) cs) = None \<longrightarrow> k = length cs)"
      by (rule exE)
    with None have "Suc k \<le> length (c # cs) \<and>
        fst (write_result env f written (c # cs)) = written @ concat (take (Suc k) (c # cs)) \<and>
        (snd (write_result env f written (c # cs)) = None \<longrightarrow> Suc k = length (c # cs))"
      by simp
    then show ?thesis by (rule exI)
  qed
qed

lemma write_result_complete:
  "snd (write_result env f written cs) = None \<Longrightarrow>
   fst (write_result env f written cs) = written @ concat cs"
  using write_result_prefix [of cs env f written] by auto

lemma stream_result_complete:
  "stream_result env f r = (bs, None) \<Longrightarrow> bs = body r"
proof -
  assume a: "stream_result env f r = (bs, None)"
  obtain bs' e where wr: "write_result env f [] (chunks_of 8192 (body r)) = (bs', e)"
    by (cases "write_result env f [] (chunks_of 8192 (body r))")
  with a have "e = None" "bs' = bs"
    by (auto simp: stream_result_def split: option.splits)
  with wr write_result_complete [of env f "[]" "chunks_of 8192 (body r)"]
  show ?thesis by (simp add: concat_chunks_of)
qed

lemma open_wb_resolve:
  "open_wb env lp w = Inr (w2, f) \<Longrightarrow> resolve lp = Some f"
  by (cases "resolve lp") (simp_all add: open_wb_def split: if_splits)

lemma fs_failed [simp]:
  "files (failed url lp x w) = files w" "dirs (failed url lp x w) = dirs w"
  by (simp_all add: failed_def)

lemma fs_saved [simp]:
  "files (saved url lp w) = files w" "dirs (saved url lp w) = dirs w"
  by (simp_all add: saved_def)

text \<open>A call that returns \<open>True\<close> went through every step.\<close>

lemma download_image_True:
  assumes "download_image env url lp w = (w', Inr True)"
  obtains r f where "http env url = Inr r" "raise_for_status r = Inr ()"
    "resolve lp = Some f" "open_wb env lp w = Inr (w\<lparr>files := (files w)(f \<mapsto> [])\<rparr>, f)"
    "stream_result env f r = (body r, None)"
    "w' = saved url lp (w\<lparr>files := (files w)(f \<mapsto> body r)\<rparr>)"
proof -
  from assms obtain r where get: "http env url = Inr r"
    by (cases "http env url") (simp_all add: download_image_eq)
  from assms get have st: "raise_for_status r = Inr ()"
    by (cases "raise_for_status r") (simp_all add: download_image_eq)
  from assms get st obtain w2 f where op: "open_wb env lp w = Inr (w2, f)"
    by (cases "open_wb env lp w") (auto simp: download_image_eq)
  obtain bs e where sr: "stream_result env f r = (bs, e)"
    by (cases "stream_result env f r")
  from assms get st op sr have e: "e = None"
    by (cases e) (simp_all add: download_image_eq)
  with sr have bs: "bs = body r" by (simp add: stream_result_complete)
  from assms get st op sr e bs
  have w': "w' = saved url lp (w\<lparr>files := (files w)(f \<mapsto> body r)\<rparr>)"
    by (simp add: download_image_eq)
  from op have "w2 = w\<lparr>files := (files w)(f \<mapsto> [])\<rparr>" by (rule open_wb_Inr_world)
  with that get st op sr e bs w' open_wb_resolve [OF op] show thesis by simp
qed

subsection \<open>Evaluating the examples\<close>



lemma chunks_of_small:
  "xs \<noteq> [] \<Longrightarrow> length xs \<le> 8192 \<Longrightarrow> chunks_of 8192 xs = [xs]"
  by (simp add: chunks_of_step)

lemma stream_result_example:
  "stream_result (permissive h) f (ok_response [0xFF, 0xD8, 0xFF]) = ([0xFF, 0xD8, 0xFF], None)"
  by (simp add: stream_result_def ok_response_def chunks_of_small permissive_def)

lemma digit_char_values:
  "digit_char 0 = CHR ''0''" "digit_char 1 = CHR ''1''" "digit_char 2 = CHR ''2''"
  "digit_char 3 = CHR ''3''" "digit_char 4 = CHR ''4''" "digit_char 5 = CHR ''5''"
  "digit_char 6 = CHR ''6''" "digit_char 7 = CHR ''7''" "digit_char 8 = CHR ''8''"
  "digit_char 9 = CHR ''9''"
  by (simp_all add: digit_char_def char_of_def bit_iff_odd)

lemma str_nat_digit: "n < 10 \<Longrightarrow> str_nat n = [digit_char n]"
  by (subst str_nat.simps) simp

lemma str_nat_step:
  "10 \<le> n \<Longrightarrow> str_nat n = str_nat (n div 10) @ [digit_char (n mod 10)]"
  by (subst str_nat.simps) simp

lemma str_nat_404: "str_nat 404 = ''404''"
  by (simp add: str_nat_step str_nat_digit digit_char_values)











lemma example_status:
  "raise_for_status (ok_response bs) = Inr ()"
  "raise_for_status not_found = Inl (HTTPError ''404 Client Error'')"
  by (simp_all add: raise_for_status_def ok_response_def not_found_def str_nat_404)

lemma empty_world_fields:
  "dirs empty_world = {}" "files empty_world = Map.empty" "stdout empty_world = []"
  "requests empty_world = []" "calls empty_world = []"
  by (simp_all add: empty_world_def)










subsection \<open>Auxiliary facts about the loop and main\<close>

lemma prints_fields [simp]:
  "dirs (prints ls w) = dirs w" "files (prints ls w) = files w"
  "stdout (prints ls w) = stdout w @ ls" "requests (prints ls w) = requests w"
  "calls (prints ls w) = calls w"
  by (induction ls arbitrary: w) (simp_all add: prints_def)

lemma download_image_step:
  "\<exists>w' b. download_image env url lp w = (w', Inr b) \<and>
     calls w' = calls w @ [(url, lp, b)] \<and> requests w' = requests w @ [url] \<and>
     dirs w' = dirs w"
  by (auto simp: download_image_eq failed_def saved_def
      split: sum.splits prod.splits option.splits)

lemma download_all_run:
  "\<exists>w' bs. download_all env ds sc w = (w', Inr (sc + length (filter id bs))) \<and>
     length bs = length ds \<and>
     calls w' = calls w @ map2 call_of ds bs \<and>
     requests w' = requests w @ map d_url ds \<and>
     dirs w' = dirs w"
proof (induction ds arbitrary: sc w)
  case Nil
  show ?case by simp
next
  case (Cons d ds)
  let ?w0 = "print (inbox_tray @ '' '' @ d_description d) w"
  from download_image_step [of env "d_url d" "d_local_path d" ?w0]
  obtain w1 b where d1: "download_image env (d_url d) (d_local_path d) ?w0 = (w1, Inr b)"
    and c1: "calls w1 = calls w @ [call_of d b]"
    and r1: "requests w1 = requests w @ [d_url d]"
    and f1: "dirs w1 = dirs w"
    by (auto simp: call_of_def)
  let ?sc = "if b then sc + 1 else sc"
  from Cons [of ?sc "print [] w1"]
  obtain w' bs where
    l: "download_all env ds ?sc (print [] w1) = (w', Inr (?sc + length (filter id bs)))"
    and n: "length bs = length ds"
    and c: "calls w' = calls (print [] w1) @ map2 call_of ds bs"
    and r: "requests w' = requests (print [] w1) @ map d_url ds"
    and f: "dirs w' = dirs (print [] w1)"
    by blast
  have "download_all env (d # ds) sc w = (w', Inr (sc + length (filter id (b # bs))))"
    using d1 l by simp
  moreover have "length (b # bs) = length (d # ds)" using n by simp
  moreover have "calls w' = calls w @ map2 call_of (d # ds) (b # bs)" using c c1 by simp
  moreover have "requests w' = requests w @ map d_url (d # ds)" using r r1 by simp
  moreover have "dirs w' = dirs w" using f f1 by simp
  ultimately show ?case by blast
qed


lemma mkdir_Inr: "mkdir env p w = Inr w' \<Longrightarrow> w' = w\<lparr>dirs := insert p (dirs w)\<rparr>"
  by (cases "path_exists w p"; cases "path_exists w (butlast p)"; cases "isdir w (butlast p)";
      cases "mkdir_permitted env p") (simp_all add: mkdir_def)

lemma makedirs_cases:
  "makedirs env name ok w =
     (if butlast name \<noteq> [] \<and> \<not> path_exists w (butlast name)
      then (case makedirs env (butlast name) ok w of
              (w', Inl x) \<Rightarrow>
                if x = OSError FileExistsError then make_last env name ok w' else (w', Inl x)
            | (w', Inr u) \<Rightarrow> make_last env name ok w')
      else make_last env name ok w)"
  by (subst makedirs.simps) (simp add: make_last_def split: prod.splits sum.splits)

lemma makedirs_base:
  "\<not> (butlast name \<noteq> [] \<and> \<not> path_exists w (butlast name)) \<Longrightarrow>
   makedirs env name ok w = make_last env name ok w"
  by (subst makedirs_cases) auto

lemma makedirs_rec:
  "butlast name \<noteq> [] \<and> \<not> path_exists w (butlast name) \<Longrightarrow>
   makedirs env (butlast name) ok w = (w1, r1) \<Longrightarrow>
   makedirs env name ok w =
     (if r1 = Inr () \<or> r1 = Inl (OSError FileExistsError) then make_last env name ok w1
      else (w1, r1))"
  by (subst makedirs_cases) (auto split: sum.splits)

lemma make_last_world:
  "\<exists>D. fst (make_last env name ok w) = w\<lparr>dirs := D\<rparr> \<and> dirs w \<subseteq> D"
proof (cases "mkdir env name w")
  case (Inl x)
  then have "fst (make_last env name ok w) = w\<lparr>dirs := dirs w\<rparr>"
    by (simp add: make_last_def)
  then show ?thesis by blast
next
  case (Inr w')
  then have "fst (make_last env name ok w) = w\<lparr>dirs := insert name (dirs w)\<rparr>"
    by (simp add: make_last_def mkdir_Inr)
  then show ?thesis by blast
qed

lemma makedirs_world:
  "\<exists>D. fst (makedirs env name ok w) = w\<lparr>dirs := D\<rparr> \<and> dirs w \<subseteq> D"
proof (induction env name ok w rule: makedirs.induct)
  case (1 env name ok w)
  show ?case
  proof (cases "butlast name \<noteq> [] \<and> \<not> path_exists w (butlast name)")
    case False
    then have "makedirs env name ok w = make_last env name ok w"
      by (rule makedirs_base)
    then show ?thesis by (simp add: make_last_world)
  next
    case True
    obtain w1 r1 where rec: "makedirs env (butlast name) ok w = (w1, r1)"
      by (cases "makedirs env (butlast name) ok w")
    from 1 [OF True] rec obtain D1 where D1: "w1 = w\<lparr>dirs := D1\<rparr>" "dirs w \<subseteq> D1"
      by auto
    from make_last_world [of env name ok w1] obtain D2 where
      D2: "fst (make_last env name ok w1) = w1\<lparr>dirs := D2\<rparr>" "dirs w1 \<subseteq> D2"
      by blast
    have "fst (makedirs env name ok w) = w1 \<or>
        fst (makedirs env name ok w) = fst (make_last env name ok w1)"
      by (simp add: makedirs_rec [OF True rec])
    then show ?thesis
    proof
      assume "fst (makedirs env name ok w) = w1"
      with D1 show ?thesis by blast
    next
      assume "fst (makedirs env name ok w) = fst (make_last env name ok w1)"
      with D1 D2 have "fst (makedirs env name ok w) = w\<lparr>dirs := D2\<rparr> \<and> dirs w \<subseteq> D2"
        by simp
      then show ?thesis by blast
    qed
  qed
qed

lemma ensure_directory_world:
  "\<exists>D. fst (ensure_directory env path w) = w\<lparr>dirs := D\<rparr> \<and> dirs w \<subseteq> D"
proof (cases "resolve path")
  case None
  then have "fst (ensure_directory env path w) = w\<lparr>dirs := dirs w\<rparr>"
    by (simp add: ensure_directory_def)
  then show ?thesis by blast
next
  case (Some p)
  then show ?thesis by (simp add: ensure_directory_def makedirs_world)
qed

lemma ensure_directory_fields:
  assumes "ensure_directory env path w = (w1, r)"
  shows "files w1 = files w" "stdout w1 = stdout w" "requests w1 = requests w"
    "calls w1 = calls w" "dirs w \<subseteq> dirs w1"
proof -
  from ensure_directory_world [of env path w] assms
  obtain D where "w1 = w\<lparr>dirs := D\<rparr>" "dirs w \<subseteq> D" by auto
  then show "files w1 = files w" "stdout w1 = stdout w" "requests w1 = requests w"
    "calls w1 = calls w" "dirs w \<subseteq> dirs w1"
    by simp_all
qed

lemma resolve_fallbacks:
  "resolve ''public/images/fallbacks'' = Some [''public'', ''images'', ''fallbacks'']"
  "resolve ''public/images/fallbacks/a.jpg'' = Some [''public'', ''images'', ''fallbacks'', ''a.jpg'']"
  "resolve ''public/images/fallbacks/b.jpg'' = Some [''public'', ''images'', ''fallbacks'', ''b.jpg'']"
  by (simp_all add: resolve_def)

lemma permissive_fields:
  "http (permissive h) = h" "mkdir_permitted (permissive h) p"
  "open_permitted (permissive h) p" "write_error (permissive h) f written chunk = None"
  by (simp_all add: permissive_def)

lemma ensure_directory_example:
  "ensure_directory (permissive h) ''public/images/fallbacks'' empty_world =
     (empty_world\<lparr>dirs := {[''public'', ''images'', ''fallbacks''], [''public'', ''images''],
        [''public'']}\<rparr>, Inr ())"
  by (simp add: ensure_directory_def resolve_fallbacks makedirs_cases make_last_def mkdir_def
      path_exists_def isdir_def permissive_def empty_world_def)

lemma main_on_example:
  "snd (main_on (permissive example_server) two_descriptors empty_world) = Inl (SystemExit 1)"
  "calls (fst (main_on (permissive example_server) two_descriptors empty_world)) =
     [(''https://example.com/a.jpg'', ''public/images/fallbacks/a.jpg'', True),
      (''https://example.com/b.jpg'', ''public/images/fallbacks/b.jpg'', False)]"
  by (simp_all add: main_on_def ensure_directory_example two_descriptors_def download_image_eq
      example_server_def example_status open_wb_def resolve_fallbacks isdir_def path_exists_def
      stream_result_example failed_def saved_def permissive_fields empty_world_fields print_def)


lemma count_all:
  "(length (filter id bs) = length bs) = (\<forall>b\<in>set bs. b)"
proof (induction bs)
  case Nil
  show ?case by simp
next
  case (Cons b bs)
  have le: "length (filter id bs) \<noteq> Suc (length bs)"
    using length_filter_le [of id bs] by linarith
  show ?case
  proof (cases b)
    case True
    with Cons show ?thesis by simp
  next
    case False
    with le show ?thesis unfolding id_def by simp
  qed
qed

lemma calls_all_ok:
  "length ds = length bs \<Longrightarrow>
   (map2 call_of ds bs = map (\<lambda>d. call_of d True) ds) = (\<forall>b\<in>set bs. b)"
  by (induction ds bs rule: list_induct2) (simp_all add: call_of_def)

lemma targets_calls:
  "length ds = length bs \<Longrightarrow>
   targets (map2 call_of ds bs) = map (\<lambda>d. (d_url d, d_local_path d)) ds"
  by (induction ds bs rule: list_induct2) (simp_all add: call_of_def targets_def)

lemma successes_calls:
  "length ds = length bs \<Longrightarrow> successes (map2 call_of ds bs) = length (filter id bs)"
  by (induction ds bs rule: list_induct2) (simp_all add: call_of_def successes_def)

lemma some_call_failed:
  "length ds = length bs \<Longrightarrow>
   (\<exists>u p. (u, p, False) \<in> set (map2 call_of ds bs)) = (\<not> (\<forall>b\<in>set bs. b))"
proof (induction ds bs rule: list_induct2)
  case Nil
  show ?case by simp
next
  case (Cons d ds b bs)
  have "(\<exists>u p. (u, p, False) \<in> set (call_of d b # cs))
      = (\<not> b \<or> (\<exists>u p. (u, p, False) \<in> set cs))" for cs
    by (auto simp: call_of_def)
  from this [of "map2 call_of ds bs"] Cons show ?case by simp
qed

lemma main_on_startup_failure:
  "ensure_directory env ''public/images/fallbacks'' w = (w1, Inl x) \<Longrightarrow>
   main_on env ds w = (w1, Inl (Exception x))"
  by (simp add: main_on_def)

lemma main_on_run:
  assumes "ensure_directory env ''public/images/fallbacks'' w = (w1, Inr ())"
  shows "\<exists>w' bs. length bs = length ds \<and>
     main_on env ds w = (w', if (\<forall>b\<in>set bs. b) then Inr () else Inl (SystemExit 1)) \<and>
     calls w' = calls w @ map2 call_of ds bs \<and>
     requests w' = requests w @ map d_url ds \<and>
     (\<exists>pre. stdout w' = pre @ summary_line (length (filter id bs)) (length ds)
                # closing_lines (\<forall>b\<in>set bs. b))"
proof -
  define w1' where "w1' = print (''Starting download of fallback images...'' @ [CHR 0x0A]) w1"
  from download_all_run [of env ds 0 w1'] obtain w2 bs where
    "download_all env ds 0 w1' = (w2, Inr (0 + length (filter id bs))) \<and>
     length bs = length ds \<and>
     calls w2 = calls w1' @ map2 call_of ds bs \<and>
     requests w2 = requests w1' @ map d_url ds \<and>
     dirs w2 = dirs w1'"
    by (elim exE)
  then have l: "download_all env ds 0 w1' = (w2, Inr (length (filter id bs)))"
    and n: "length bs = length ds"
    and c: "calls w2 = calls w1' @ map2 call_of ds bs"
    and r: "requests w2 = requests w1' @ map d_url ds"
    by simp_all
  note f = ensure_directory_fields [OF assms]
  define ok where "ok = (\<forall>b\<in>set bs. b)"
  define line where "line = summary_line (length (filter id bs)) (length ds)"
  define w3 where "w3 = print line w2"
  define w' where "w' = prints (closing_lines ok) w3"
  have all: "(length (filter id bs) = length ds) = ok"
    using count_all [of bs] n by (simp add: ok_def)
  have c1: "prints (closing_lines True) w3 = prints [check_mark_button @ '' All images downloaded successfully!'',
          CHR 0x0A # ''Next steps:'',
          ''1. Update config files to use local image paths'',
          ''2. Test the application to ensure images load correctly'',
          ''3. Commit changes to git''] w3"
    by (simp only: closing_lines_def if_True)
  have c2: "prints (closing_lines False) w3 = print (warning_sign @
          ''  Some images failed to download. Please check the errors above.'') w3"
    by (simp add: closing_lines_def prints_def)
  have m0: "main_on env ds w =
      (if length (filter id bs) = length ds
       then (prints [check_mark_button @ '' All images downloaded successfully!'',
          CHR 0x0A # ''Next steps:'',
          ''1. Update config files to use local image paths'',
          ''2. Test the application to ensure images load correctly'',
          ''3. Commit changes to git''] w3, Inr ())
       else (print (warning_sign @
          ''  Some images failed to download. Please check the errors above.'') w3,
          Inl (SystemExit 1)))"
    unfolding main_on_def w3_def line_def summary_line_def
    using assms l by (simp only: prod.case sum.case Let_def w1'_def)
  have m: "main_on env ds w = (w', if ok then Inr () else Inl (SystemExit 1))"
    unfolding m0 all w'_def by (cases ok) (simp_all only: c1 c2 if_True if_False)
  have cw: "calls w' = calls w @ map2 call_of ds bs"
    using c f by (simp add: w'_def w3_def w1'_def)
  have rw: "requests w' = requests w @ map d_url ds"
    using r f by (simp add: w'_def w3_def w1'_def)
  have "stdout w' = stdout w2 @ line # closing_lines ok"
    by (simp add: w'_def w3_def)
  then have sw: "\<exists>pre. stdout w' = pre @ line # closing_lines ok" by (rule exI)
  from n m cw rw sw have "length bs = length ds \<and>
     main_on env ds w = (w', if (\<forall>b\<in>set bs. b) then Inr () else Inl (SystemExit 1)) \<and>
     calls w' = calls w @ map2 call_of ds bs \<and>
     requests w' = requests w @ map d_url ds \<and>
     (\<exists>pre. stdout w' = pre @ summary_line (length (filter id bs)) (length ds)
                # closing_lines (\<forall>b\<in>set bs. b))"
    by (simp only: ok_def line_def simp_thms)
  then show ?thesis by (intro exI)
qed

subsection \<open>The whole run\<close>

lemma main_on_cases:
  obtains (startup) w1 x where
      "ensure_directory env ''public/images/fallbacks'' w = (w1, Inl x)"
      "main_on env ds w = (w1, Inl (Exception x))" "new_calls w w1 = []"
      "new_requests w w1 = []"
  | (run) w1 w' bs where
      "ensure_directory env ''public/images/fallbacks'' w = (w1, Inr ())"
      "length ds = length bs"
      "main_on env ds w = (w', if (\<forall>b\<in>set bs. b) then Inr () else Inl (SystemExit 1))"
      "new_calls w w' = map2 call_of ds bs" "new_requests w w' = map d_url ds"
      "\<exists>pre. stdout w' = pre @ summary_line (length (filter id bs)) (length ds)
                # closing_lines (\<forall>b\<in>set bs. b)"
proof -
  obtain w1 r1 where e: "ensure_directory env ''public/images/fallbacks'' w = (w1, r1)"
    by (cases "ensure_directory env ''public/images/fallbacks'' w")
  show thesis
  proof (cases r1)
    case (Inl x)
    note f = ensure_directory_fields [OF e]
    from e Inl have "main_on env ds w = (w1, Inl (Exception x))"
      by (simp add: main_on_startup_failure)
    moreover have "new_calls w w1 = []" "new_requests w w1 = []"
      using f by (simp_all add: new_calls_def new_requests_def)
    ultimately show thesis using startup e Inl by simp
  next
    case (Inr u)
    with e have e': "ensure_directory env ''public/images/fallbacks'' w = (w1, Inr ())"
      by simp
    from main_on_run [OF e', of ds] obtain w' bs where
      "length bs = length ds \<and>
       main_on env ds w = (w', if (\<forall>b\<in>set bs. b) then Inr () else Inl (SystemExit 1)) \<and>
       calls w' = calls w @ map2 call_of ds bs \<and>
       requests w' = requests w @ map d_url ds \<and>
       (\<exists>pre. stdout w' = pre @ summary_line (length (filter id bs)) (length ds)
                # closing_lines (\<forall>b\<in>set bs. b))"
      by (elim exE)
    then have "length ds = length bs"
      "main_on env ds w = (w', if (\<forall>b\<in>set bs. b) then Inr () else Inl (SystemExit 1))"
      "new_calls w w' = map2 call_of ds bs" "new_requests w w' = map d_url ds"
      "\<exists>pre. stdout w' = pre @ summary_line (length (filter id bs)) (length ds)
                # closing_lines (\<forall>b\<in>set bs. b)"
      by (simp_all add: new_calls_def new_requests_def)
    with run e' show thesis by blast
  qed
qed

text \<open>
  Claim C1. For the list of descriptors of the script, which is not empty, the exit
  status is 0 exactly when \<^verbatim>\<open>download_image\<close> was called for every descriptor and every
  call returned \<open>True\<close>. When a call returned \<open>False\<close>, \<^verbatim>\<open>main\<close> ends with
  \<^verbatim>\<open>SystemExit(1)\<close>, so the exit status is 1, after it has called \<^verbatim>\<open>download_image\<close> for
  every descriptor and printed the summary line and the warning.
\<close>

theorem main_exit_status:
  "(ds \<noteq> [] \<longrightarrow>
      (exit_status (snd (main_on env ds w)) = 0)
      = (new_calls w (fst (main_on env ds w)) = map (\<lambda>d. call_of d True) ds))
   \<and> (exit_status (snd (main_on env ds w)) = 0 \<or> exit_status (snd (main_on env ds w)) = 1)
   \<and> ((\<exists>u p. (u, p, False) \<in> set (new_calls w (fst (main_on env ds w)))) \<longrightarrow>
      snd (main_on env ds w) = Inl (SystemExit 1) \<and>
      exit_status (snd (main_on env ds w)) = 1 \<and>
      targets (new_calls w (fst (main_on env ds w)))
        = map (\<lambda>d. (d_url d, d_local_path d)) ds \<and>
      (\<exists>pre. stdout (fst (main_on env ds w))
        = pre @ summary_line (successes (new_calls w (fst (main_on env ds w)))) (length ds)
            # closing_lines False))"
proof (cases rule: main_on_cases [of env w ds])
  case (startup w1 x)
  then show ?thesis by simp
next
  case (run w1 w' bs)
  define ok where "ok = (\<forall>b\<in>set bs. b)"
  have m: "main_on env ds w = (w', if ok then Inr () else Inl (SystemExit 1))"
    using run(3) by (simp only: ok_def)
  have st: "exit_status (snd (main_on env ds w)) = (if ok then 0 else 1)"
    unfolding m by simp
  have a: "(new_calls w w' = map (\<lambda>d. call_of d True) ds) = ok"
    using run(4) calls_all_ok [OF run(2)] by (simp only: ok_def)
  have b: "(\<exists>u p. (u, p, False) \<in> set (new_calls w w')) = (\<not> ok)"
    using run(4) some_call_failed [OF run(2)] by (simp only: ok_def)
  have t: "targets (new_calls w w') = map (\<lambda>d. (d_url d, d_local_path d)) ds"
    using run(4) targets_calls [OF run(2)] by simp
  have s: "successes (new_calls w w') = length (filter id bs)"
    using run(4) successes_calls [OF run(2)] by simp
  have p: "\<exists>pre. stdout w'
        = pre @ summary_line (successes (new_calls w w')) (length ds) # closing_lines ok"
    using run(6) unfolding s ok_def .
  have w': "fst (main_on env ds w) = w'" unfolding m by simp
  show ?thesis
  proof (cases ok)
    case True
    with st a b show ?thesis unfolding w' by simp
  next
    case False
    with st a b t p m show ?thesis unfolding w' by simp
  qed
qed


theorem main_exit_status_witness:
  "two_descriptors \<noteq> []
   \<and> (''https://example.com/b.jpg'', ''public/images/fallbacks/b.jpg'', False)
       \<in> set (new_calls empty_world
                (fst (main_on (permissive example_server) two_descriptors empty_world)))
   \<and> new_calls empty_world
        (fst (main_on (permissive example_server) two_descriptors empty_world))
       \<noteq> map (\<lambda>d. call_of d True) two_descriptors
   \<and> snd (main_on (permissive example_server) two_descriptors empty_world) = Inl (SystemExit 1)
   \<and> exit_status (snd (main_on (permissive example_server) two_descriptors empty_world)) = 1"
proof -
  let ?m = "main_on (permissive example_server) two_descriptors empty_world"
  have ne: "two_descriptors \<noteq> []" by (simp add: two_descriptors_def)
  have nc: "new_calls empty_world (fst ?m) =
     [(''https://example.com/a.jpg'', ''public/images/fallbacks/a.jpg'', True),
      (''https://example.com/b.jpg'', ''public/images/fallbacks/b.jpg'', False)]"
    by (simp add: new_calls_def empty_world_fields main_on_example)
  have f: "(''https://example.com/b.jpg'', ''public/images/fallbacks/b.jpg'', False)
      \<in> set (new_calls empty_world (fst ?m))"
    unfolding nc by simp
  then have ex: "\<exists>u p. (u, p, False) \<in> set (new_calls empty_world (fst ?m))" by blast
  from main_exit_status [of two_descriptors "permissive example_server" empty_world] ne ex
  have "snd ?m = Inl (SystemExit 1) \<and> exit_status (snd ?m) = 1 \<and>
      new_calls empty_world (fst ?m) \<noteq> map (\<lambda>d. call_of d True) two_descriptors"
    by auto
  with ne f show ?thesis by simp
qed

lemma main_on_example_rev:
  "calls (fst (main_on (permissive example_server) (rev two_descriptors) empty_world)) =
     [(''https://example.com/b.jpg'', ''public/images/fallbacks/b.jpg'', False),
      (''https://example.com/a.jpg'', ''public/images/fallbacks/a.jpg'', True)]"
  "requests (fst (main_on (permissive example_server) (rev two_descriptors) empty_world)) =
     [''https://example.com/b.jpg'', ''https://example.com/a.jpg'']"
  by (simp_all add: main_on_def ensure_directory_example two_descriptors_def download_image_eq
      example_server_def example_status open_wb_def resolve_fallbacks isdir_def path_exists_def
      stream_result_example failed_def saved_def permissive_fields empty_world_fields print_def)

text \<open>
  Claim C3. The loop of \<^verbatim>\<open>main\<close> never raises and calls \<^verbatim>\<open>download_image\<close> exactly once
  for every descriptor, in the order of the list, whatever the earlier calls returned:
  the calls made, and the GET requests issued, are those of the descriptors in list
  order. So does \<^verbatim>\<open>main\<close>, once the directory of the images is there.
\<close>

theorem main_attempts_every_descriptor:
  "(\<exists>n. snd (download_all env ds success_count w) = Inr n)
   \<and> targets (new_calls w (fst (download_all env ds success_count w)))
       = map (\<lambda>d. (d_url d, d_local_path d)) ds
   \<and> new_requests w (fst (download_all env ds success_count w)) = map d_url ds
   \<and> (snd (ensure_directory env ''public/images/fallbacks'' w) = Inr () \<longrightarrow>
        targets (new_calls w (fst (main_on env ds w)))
          = map (\<lambda>d. (d_url d, d_local_path d)) ds \<and>
        new_requests w (fst (main_on env ds w)) = map d_url ds)"
proof -
  from download_all_run [of env ds success_count w] obtain w' bs where
    "download_all env ds success_count w = (w', Inr (success_count + length (filter id bs))) \<and>
     length bs = length ds \<and>
     calls w' = calls w @ map2 call_of ds bs \<and>
     requests w' = requests w @ map d_url ds \<and>
     dirs w' = dirs w"
    by (elim exE)
  then have l: "download_all env ds success_count w
      = (w', Inr (success_count + length (filter id bs)))"
    and n: "length ds = length bs"
    and c: "new_calls w w' = map2 call_of ds bs"
    and r: "new_requests w w' = map d_url ds"
    by (simp_all add: new_calls_def new_requests_def)
  have loop: "(\<exists>n. snd (download_all env ds success_count w) = Inr n)
     \<and> targets (new_calls w (fst (download_all env ds success_count w)))
         = map (\<lambda>d. (d_url d, d_local_path d)) ds
     \<and> new_requests w (fst (download_all env ds success_count w)) = map d_url ds"
    unfolding l using c r targets_calls [OF n] by simp
  have "targets (new_calls w (fst (main_on env ds w)))
          = map (\<lambda>d. (d_url d, d_local_path d)) ds \<and>
        new_requests w (fst (main_on env ds w)) = map d_url ds"
    if e: "snd (ensure_directory env ''public/images/fallbacks'' w) = Inr ()"
  proof (cases rule: main_on_cases [of env w ds])
    case (startup w1 x)
    with e show ?thesis by simp
  next
    case (run w1 w' bs)
    from run(3) have "fst (main_on env ds w) = w'" by simp
    with run(4,5) targets_calls [OF run(2)] show ?thesis by simp
  qed
  with loop show ?thesis by blast
qed

theorem main_attempts_every_descriptor_witness:
  "snd (ensure_directory (permissive example_server) ''public/images/fallbacks'' empty_world)
     = Inr ()
   \<and> new_calls empty_world
        (fst (main_on (permissive example_server) (rev two_descriptors) empty_world))
     = [(''https://example.com/b.jpg'', ''public/images/fallbacks/b.jpg'', False),
        (''https://example.com/a.jpg'', ''public/images/fallbacks/a.jpg'', True)]
   \<and> targets (new_calls empty_world
        (fst (main_on (permissive example_server) (rev two_descriptors) empty_world)))
     = map (\<lambda>d. (d_url d, d_local_path d)) (rev two_descriptors)
   \<and> new_requests empty_world
        (fst (main_on (permissive example_server) (rev two_descriptors) empty_world))
     = [''https://example.com/b.jpg'', ''https://example.com/a.jpg'']"
proof -
  let ?env = "permissive example_server"
  let ?m = "main_on ?env (rev two_descriptors) empty_world"
  have e: "snd (ensure_directory ?env ''public/images/fallbacks'' empty_world) = Inr ()"
    by (simp add: ensure_directory_example)
  have nc: "new_calls empty_world (fst ?m)
     = [(''https://example.com/b.jpg'', ''public/images/fallbacks/b.jpg'', False),
        (''https://example.com/a.jpg'', ''public/images/fallbacks/a.jpg'', True)]"
    by (simp add: new_calls_def empty_world_fields main_on_example_rev)
  have nr: "new_requests empty_world (fst ?m)
     = [''https://example.com/b.jpg'', ''https://example.com/a.jpg'']"
    by (simp add: new_requests_def empty_world_fields main_on_example_rev)
  from main_attempts_every_descriptor [of ?env "rev two_descriptors" 0 empty_world] e
  have "targets (new_calls empty_world (fst ?m))
     = map (\<lambda>d. (d_url d, d_local_path d)) (rev two_descriptors)"
    by simp
  with e nc nr show ?thesis by simp
qed

lemma digit_char_Suc_0: "digit_char (Suc 0) = CHR ''1''"
  using digit_char_values(2) by simp

lemma summary_line_1_2:
  "summary_line (Suc 0) 2 = ''Download complete: 1/2 images downloaded successfully''"
  by (simp add: summary_line_def str_nat_digit digit_char_values digit_char_Suc_0)

text \<open>
  Claim C5. Once the directory of the images is there, \<^verbatim>\<open>main\<close> makes one call of
  \<^verbatim>\<open>download_image\<close> for each descriptor and then prints the summary line
  \<open>success_count/total_count\<close>, where \<open>success_count\<close> is the number of calls that
  returned \<open>True\<close> and \<open>total_count\<close> the length of the list; the exit status is 0 when
  the two are equal and 1 otherwise. When all calls return \<open>True\<close> the count printed is
  the length of the list and the exit status is 0. For a first descriptor whose
  download succeeds and a second one whose download fails, the summary is 1/2 and
  the exit status is 1.
\<close>

theorem main_summary:
  "snd (ensure_directory env ''public/images/fallbacks'' w) = Inr () \<longrightarrow>
     (\<exists>pre. stdout (fst (main_on env ds w))
        = pre @ summary_line (successes (new_calls w (fst (main_on env ds w)))) (length ds)
            # closing_lines (successes (new_calls w (fst (main_on env ds w))) = length ds))
     \<and> length (new_calls w (fst (main_on env ds w))) = length ds
     \<and> exit_status (snd (main_on env ds w))
         = (if successes (new_calls w (fst (main_on env ds w))) = length ds then 0 else 1)
     \<and> (new_calls w (fst (main_on env ds w)) = map (\<lambda>d. call_of d True) ds \<longrightarrow>
          successes (new_calls w (fst (main_on env ds w))) = length ds \<and>
          exit_status (snd (main_on env ds w)) = 0)"
proof
  assume e: "snd (ensure_directory env ''public/images/fallbacks'' w) = Inr ()"
  show "(\<exists>pre. stdout (fst (main_on env ds w))
        = pre @ summary_line (successes (new_calls w (fst (main_on env ds w)))) (length ds)
            # closing_lines (successes (new_calls w (fst (main_on env ds w))) = length ds))
     \<and> length (new_calls w (fst (main_on env ds w))) = length ds
     \<and> exit_status (snd (main_on env ds w))
         = (if successes (new_calls w (fst (main_on env ds w))) = length ds then 0 else 1)
     \<and> (new_calls w (fst (main_on env ds w)) = map (\<lambda>d. call_of d True) ds \<longrightarrow>
          successes (new_calls w (fst (main_on env ds w))) = length ds \<and>
          exit_status (snd (main_on env ds w)) = 0)"
  proof (cases rule: main_on_cases [of env w ds])
    case (startup w1 x)
    with e show ?thesis by simp
  next
    case (run w1 w' bs)
    define ok where "ok = (\<forall>b\<in>set bs. b)"
    have m: "main_on env ds w = (w', if ok then Inr () else Inl (SystemExit 1))"
      using run(3) by (simp only: ok_def)
    have s: "successes (new_calls w w') = length (filter id bs)"
      using run(4) successes_calls [OF run(2)] by simp
    have all: "(successes (new_calls w w') = length ds) = ok"
      unfolding s ok_def using count_all [of bs] run(2) by simp
    have a: "(new_calls w w' = map (\<lambda>d. call_of d True) ds) = ok"
      using run(4) calls_all_ok [OF run(2)] by (simp only: ok_def)
    have p: "\<exists>pre. stdout w'
        = pre @ summary_line (successes (new_calls w w')) (length ds) # closing_lines ok"
      using run(6) unfolding s ok_def .
    have n: "length (new_calls w w') = length ds"
      using run(2,4) by simp
    have w': "fst (main_on env ds w) = w'" unfolding m by simp
    have st: "exit_status (snd (main_on env ds w)) = (if ok then 0 else 1)"
      unfolding m by simp
    show ?thesis unfolding w' st all a using p n by (cases ok) simp_all
  qed
qed

theorem main_summary_witness:
  "snd (ensure_directory (permissive example_server) ''public/images/fallbacks'' empty_world)
     = Inr ()
   \<and> successes (new_calls empty_world
        (fst (main_on (permissive example_server) two_descriptors empty_world))) = 1
   \<and> (\<exists>pre. stdout (fst (main_on (permissive example_server) two_descriptors empty_world))
        = pre @ ''Download complete: 1/2 images downloaded successfully''
            # closing_lines False)
   \<and> exit_status (snd (main_on (permissive example_server) two_descriptors empty_world)) = 1"
proof -
  let ?env = "permissive example_server"
  let ?m = "main_on ?env two_descriptors empty_world"
  have e: "snd (ensure_directory ?env ''public/images/fallbacks'' empty_world) = Inr ()"
    by (simp add: ensure_directory_example)
  have nc: "new_calls empty_world (fst ?m) =
     [(''https://example.com/a.jpg'', ''public/images/fallbacks/a.jpg'', True),
      (''https://example.com/b.jpg'', ''public/images/fallbacks/b.jpg'', False)]"
    by (simp add: new_calls_def empty_world_fields main_on_example)
  have s: "successes (new_calls empty_world (fst ?m)) = 1"
    unfolding nc by (simp add: successes_def)
  have l: "length two_descriptors = 2" by (simp add: two_descriptors_def)
  from main_summary [of ?env empty_world two_descriptors] e
  have "(\<exists>pre. stdout (fst ?m) = pre @ summary_line 1 2 # closing_lines False)
      \<and> exit_status (snd ?m) = 1"
    unfolding s l by simp
  with e s show ?thesis by (simp add: summary_line_1_2)
qed

subsection \<open>The files of a successful run\<close>

lemma stream_result_empty: "stream_result (permissive h) f (ok_response []) = ([], None)"
  by (simp add: stream_result_def ok_response_def)

lemma resolve_images:
  "resolve ''public/images/fallbacks/attraction-fallback.jpg''
     = Some [''public'', ''images'', ''fallbacks'', ''attraction-fallback.jpg'']"
  "resolve ''public/images/fallbacks/city-fallback.jpg''
     = Some [''public'', ''images'', ''fallbacks'', ''city-fallback.jpg'']"
  "resolve ''public/images/fallbacks/hero-fallback.jpg''
     = Some [''public'', ''images'', ''fallbacks'', ''hero-fallback.jpg'']"
  "resolve ''public/images/fallbacks/seo-default.jpg''
     = Some [''public'', ''images'', ''fallbacks'', ''seo-default.jpg'']"
  "resolve ''public/images/fallbacks/about-page.jpg''
     = Some [''public'', ''images'', ''fallbacks'', ''about-page.jpg'']"
  by (simp_all add: resolve_def)

lemma main_empty_bodies:
  "snd (main (permissive empty_server) empty_world) = Inr ()"
  "calls (fst (main (permissive empty_server) empty_world))
     = map (\<lambda>d. call_of d True) images_to_download"
  "files (fst (main (permissive empty_server) empty_world))
     [''public'', ''images'', ''fallbacks'', ''attraction-fallback.jpg''] = Some []"
  by (simp_all add: main_def main_on_def ensure_directory_example images_to_download_def
      download_image_eq empty_server_def example_status open_wb_def resolve_images isdir_def
      path_exists_def stream_result_empty failed_def saved_def permissive_fields
      empty_world_fields print_def prints_def call_of_def Let_def)


lemma main_on_world:
  assumes "ensure_directory env ''public/images/fallbacks'' w = (w1, Inr ())"
  shows "\<exists>w2 n. download_all env ds 0
            (print (''Starting download of fallback images...'' @ [CHR 0x0A]) w1) = (w2, Inr n) \<and>
     files (fst (main_on env ds w)) = files w2 \<and>
     dirs (fst (main_on env ds w)) = dirs w2 \<and>
     calls (fst (main_on env ds w)) = calls w2 \<and>
     snd (main_on env ds w) = (if n = length ds then Inr () else Inl (SystemExit 1))"
proof -
  define w1' where "w1' = print (''Starting download of fallback images...'' @ [CHR 0x0A]) w1"
  from download_all_run [of env ds 0 w1'] obtain w2 bs where
    "download_all env ds 0 w1' = (w2, Inr (0 + length (filter id bs))) \<and>
     length bs = length ds \<and>
     calls w2 = calls w1' @ map2 call_of ds bs \<and>
     requests w2 = requests w1' @ map d_url ds \<and>
     dirs w2 = dirs w1'"
    by (elim exE)
  then have l: "download_all env ds 0 w1' = (w2, Inr (length (filter id bs)))" by simp
  define n where "n = length (filter id bs)"
  have m: "main_on env ds w =
      (let w3 = print (''Download complete: '' @ str_nat n @ ''/'' @
                       str_nat (length ds) @ '' images downloaded successfully'') w2
       in if n = length ds
          then (prints [check_mark_button @ '' All images downloaded successfully!'',
                  CHR 0x0A # ''Next steps:'',
                  ''1. Update config files to use local image paths'',
                  ''2. Test the application to ensure images load correctly'',
                  ''3. Commit changes to git''] w3, Inr ())
          else (print (warning_sign @
                  ''  Some images failed to download. Please check the errors above.'') w3,
                Inl (SystemExit 1)))"
    unfolding main_on_def n_def
    using assms l by (simp only: prod.case sum.case Let_def w1'_def)
  have "files (fst (main_on env ds w)) = files w2 \<and>
     dirs (fst (main_on env ds w)) = dirs w2 \<and>
     calls (fst (main_on env ds w)) = calls w2 \<and>
     snd (main_on env ds w) = (if n = length ds then Inr () else Inl (SystemExit 1))"
    unfolding m by (simp add: Let_def)
  with l show ?thesis unfolding w1'_def n_def by blast
qed

lemma download_all_files:
  assumes "download_all env ds sc w = (w', r)"
    and "calls w' = calls w @ map (\<lambda>d. call_of d True) ds"
  shows "(\<forall>d\<in>set ds. \<exists>f. resolve (d_local_path d) = Some f) \<and>
     (\<forall>f. (files w' f = files w f \<and> (\<forall>d\<in>set ds. resolve (d_local_path d) \<noteq> Some f)) \<or>
          (\<exists>d\<in>set ds. \<exists>r. resolve (d_local_path d) = Some f \<and> http env (d_url d) = Inr r \<and>
             files w' f = Some (body r)))"
  using assms
proof (induction ds arbitrary: sc w)
  case Nil
  then show ?case by simp
next
  case (Cons d ds)
  define w0 where "w0 = print (inbox_tray @ '' '' @ d_description d) w"
  from download_image_step [of env "d_url d" "d_local_path d" w0]
  obtain w1 b where "download_image env (d_url d) (d_local_path d) w0 = (w1, Inr b) \<and>
     calls w1 = calls w0 @ [(d_url d, d_local_path d, b)] \<and>
     requests w1 = requests w0 @ [d_url d] \<and> dirs w1 = dirs w0"
    by (elim exE)
  then have d1: "download_image env (d_url d) (d_local_path d) w0 = (w1, Inr b)"
    and c1: "calls w1 = calls w @ [call_of d b]"
    by (simp_all add: w0_def call_of_def)
  define sc' where "sc' = (if b then sc + 1 else sc)"
  define v where "v = print [] w1"
  have rest: "download_all env ds sc' v = (w', r)"
    using Cons.prems(1) d1 by (simp add: w0_def sc'_def v_def)
  from download_all_run [of env ds sc' v] obtain w'' bs where
    "download_all env ds sc' v = (w'', Inr (sc' + length (filter id bs))) \<and>
     length bs = length ds \<and>
     calls w'' = calls v @ map2 call_of ds bs \<and>
     requests w'' = requests v @ map d_url ds \<and>
     dirs w'' = dirs v"
    by (elim exE)
  with rest have cs: "calls w' = calls v @ map2 call_of ds bs" by simp
  have cv: "calls v = calls w @ [call_of d b]" using c1 by (simp add: v_def)
  from cs cv Cons.prems(2)
  have eq: "call_of d b # map2 call_of ds bs = call_of d True # map (\<lambda>d. call_of d True) ds"
    by simp
  then have b: "b" by (simp add: call_of_def)
  from eq have "map2 call_of ds bs = map (\<lambda>d. call_of d True) ds" by simp
  with cs have cr: "calls w' = calls v @ map (\<lambda>d. call_of d True) ds" by simp
  note IH = Cons.IH [OF rest cr]
  from d1 b have "download_image env (d_url d) (d_local_path d) w0 = (w1, Inr True)" by simp
  then obtain rd fd where get: "http env (d_url d) = Inr rd"
    and res: "resolve (d_local_path d) = Some fd"
    and w1: "w1 = saved (d_url d) (d_local_path d) (w0\<lparr>files := (files w0)(fd \<mapsto> body rd)\<rparr>)"
    by (rule download_image_True)
  have fv: "files v = (files w)(fd \<mapsto> body rd)"
    by (simp add: v_def w1 w0_def)
  have "\<forall>d'\<in>set (d # ds). \<exists>f. resolve (d_local_path d') = Some f"
    using IH res by simp
  moreover have "(files w' f = files w f \<and>
        (\<forall>d'\<in>set (d # ds). resolve (d_local_path d') \<noteq> Some f)) \<or>
      (\<exists>d'\<in>set (d # ds). \<exists>r. resolve (d_local_path d') = Some f \<and>
          http env (d_url d') = Inr r \<and> files w' f = Some (body r))" for f
  proof -
    from IH have "(files w' f = files v f \<and> (\<forall>d\<in>set ds. resolve (d_local_path d) \<noteq> Some f)) \<or>
          (\<exists>d\<in>set ds. \<exists>r. resolve (d_local_path d) = Some f \<and> http env (d_url d) = Inr r \<and>
             files w' f = Some (body r))"
      by blast
    then show ?thesis
    proof
      assume a: "files w' f = files v f \<and> (\<forall>d\<in>set ds. resolve (d_local_path d) \<noteq> Some f)"
      show ?thesis
      proof (cases "f = fd")
        case True
        with a fv have "files w' f = Some (body rd)" by simp
        with True res get show ?thesis by auto
      next
        case False
        with a fv res show ?thesis by auto
      qed
    next
      assume "\<exists>d\<in>set ds. \<exists>r. resolve (d_local_path d) = Some f \<and> http env (d_url d) = Inr r \<and>
             files w' f = Some (body r)"
      then show ?thesis by auto
    qed
  qed
  ultimately show ?case by blast
qed


lemma main_on_one_example:
  "calls (fst (main_on (permissive example_server) [hd two_descriptors] empty_world)) =
     [(''https://example.com/a.jpg'', ''public/images/fallbacks/a.jpg'', True)]"
  "files (fst (main_on (permissive example_server) [hd two_descriptors] empty_world))
     [''public'', ''images'', ''fallbacks'', ''a.jpg''] = Some [0xFF, 0xD8, 0xFF]"
  by (simp_all add: main_on_def ensure_directory_example two_descriptors_def download_image_eq
      example_server_def example_status open_wb_def resolve_fallbacks isdir_def path_exists_def
      stream_result_example failed_def saved_def permissive_fields empty_world_fields print_def
      prints_def Let_def)

text \<open>
  Claim C4, as stated, fails: a server may answer 200 with an empty body. Then every
  download of the script succeeds, the exit status is 0, and the file of the first
  descriptor is there and empty.
\<close>

theorem successful_run_nonempty_counterexample:
  "snd (main (permissive empty_server) empty_world) = Inr ()
   \<and> new_calls empty_world (fst (main (permissive empty_server) empty_world))
       = successful_calls images_to_download
   \<and> d_local_path (hd images_to_download) = ''public/images/fallbacks/attraction-fallback.jpg''
   \<and> resolve ''public/images/fallbacks/attraction-fallback.jpg''
       = Some [''public'', ''images'', ''fallbacks'', ''attraction-fallback.jpg'']
   \<and> files (fst (main (permissive empty_server) empty_world))
        [''public'', ''images'', ''fallbacks'', ''attraction-fallback.jpg''] = Some []"
  by (simp add: main_empty_bodies resolve_images new_calls_def empty_world_fields
      successful_calls_def images_to_download_def)

text \<open>
  Claim C4, amended. After a run in which every download succeeds, the file at the
  \<open>local_path\<close> of every descriptor exists and holds the body of a response that the
  server gave for a descriptor with that path; so it is not empty when no response
  received has an empty body.
\<close>

theorem successful_run_files:
  "new_calls w (fst (main_on env ds w)) = successful_calls ds \<longrightarrow>
     (\<forall>d\<in>set ds. \<exists>f. resolve (d_local_path d) = Some f \<and>
        (\<exists>d'\<in>set ds. \<exists>r. resolve (d_local_path d') = Some f \<and>
           http env (d_url d') = Inr r \<and>
           files (fst (main_on env ds w)) f = Some (body r)))
     \<and> ((\<forall>d\<in>set ds. \<forall>r. http env (d_url d) = Inr r \<longrightarrow> body r \<noteq> []) \<longrightarrow>
        (\<forall>d\<in>set ds. \<exists>f bs. resolve (d_local_path d) = Some f \<and>
           files (fst (main_on env ds w)) f = Some bs \<and> bs \<noteq> []))"
proof
  assume ok: "new_calls w (fst (main_on env ds w)) = successful_calls ds"
  have main: "\<forall>d\<in>set ds. \<exists>f. resolve (d_local_path d) = Some f \<and>
        (\<exists>d'\<in>set ds. \<exists>r. resolve (d_local_path d') = Some f \<and>
           http env (d_url d') = Inr r \<and>
           files (fst (main_on env ds w)) f = Some (body r))"
  proof (cases "ds = []")
    case True
    then show ?thesis by simp
  next
    case False
    obtain w1 r1 where e: "ensure_directory env ''public/images/fallbacks'' w = (w1, r1)"
      by (cases "ensure_directory env ''public/images/fallbacks'' w")
    note f1 = ensure_directory_fields [OF e]
    have r1: "r1 = Inr ()"
    proof (cases r1)
      case (Inl x)
      with e have "main_on env ds w = (w1, Inl (Exception x))"
        by (simp add: main_on_startup_failure)
      with f1 have "new_calls w (fst (main_on env ds w)) = []"
        by (simp add: new_calls_def)
      with ok False show ?thesis by (simp add: successful_calls_def)
    next
      case (Inr u)
      then show ?thesis by simp
    qed
    define w1' where "w1' = print (''Starting download of fallback images...'' @ [CHR 0x0A]) w1"
    from e r1 have e': "ensure_directory env ''public/images/fallbacks'' w = (w1, Inr ())"
      by simp
    from main_on_world [OF e', of ds] obtain w2 n where
      "download_all env ds 0 w1' = (w2, Inr n) \<and>
       files (fst (main_on env ds w)) = files w2 \<and>
       dirs (fst (main_on env ds w)) = dirs w2 \<and>
       calls (fst (main_on env ds w)) = calls w2 \<and>
       snd (main_on env ds w) = (if n = length ds then Inr () else Inl (SystemExit 1))"
      unfolding w1'_def by (elim exE)
    then have l: "download_all env ds 0 w1' = (w2, Inr n)"
      and fm: "files (fst (main_on env ds w)) = files w2"
      and cm: "calls (fst (main_on env ds w)) = calls w2"
      by simp_all
    from download_all_run [of env ds 0 w1'] obtain w2' bs where
      "download_all env ds 0 w1' = (w2', Inr (0 + length (filter id bs))) \<and>
       length bs = length ds \<and>
       calls w2' = calls w1' @ map2 call_of ds bs \<and>
       requests w2' = requests w1' @ map d_url ds \<and>
       dirs w2' = dirs w1'"
      by (elim exE)
    with l have c2: "calls w2 = calls w1' @ map2 call_of ds bs" by simp
    have c1: "calls w1' = calls w" using f1 by (simp add: w1'_def)
    from ok cm c2 c1 have "map2 call_of ds bs = successful_calls ds"
      by (simp add: new_calls_def)
    with c2 have c: "calls w2 = calls w1' @ map (\<lambda>d. call_of d True) ds"
      by (simp add: successful_calls_def)
    note inv = download_all_files [OF l c]
    show ?thesis
    proof
      fix d assume d: "d \<in> set ds"
      with inv obtain f where f: "resolve (d_local_path d) = Some f" by blast
      from inv have "(files w2 f = files w1' f \<and>
            (\<forall>d\<in>set ds. resolve (d_local_path d) \<noteq> Some f)) \<or>
          (\<exists>d\<in>set ds. \<exists>r. resolve (d_local_path d) = Some f \<and> http env (d_url d) = Inr r \<and>
             files w2 f = Some (body r))"
        by blast
      with d f have "\<exists>d'\<in>set ds. \<exists>r. resolve (d_local_path d') = Some f \<and>
          http env (d_url d') = Inr r \<and> files w2 f = Some (body r)"
        by blast
      with f fm show "\<exists>f. resolve (d_local_path d) = Some f \<and>
        (\<exists>d'\<in>set ds. \<exists>r. resolve (d_local_path d') = Some f \<and>
           http env (d_url d') = Inr r \<and>
           files (fst (main_on env ds w)) f = Some (body r))"
        by simp
    qed
  qed
  have "\<forall>d\<in>set ds. \<exists>f bs. resolve (d_local_path d) = Some f \<and>
           files (fst (main_on env ds w)) f = Some bs \<and> bs \<noteq> []"
    if ne: "\<forall>d\<in>set ds. \<forall>r. http env (d_url d) = Inr r \<longrightarrow> body r \<noteq> []"
  proof
    fix d assume "d \<in> set ds"
    with main obtain f d' r where "resolve (d_local_path d) = Some f" "d' \<in> set ds"
      "http env (d_url d') = Inr r" "files (fst (main_on env ds w)) f = Some (body r)"
      by blast
    with ne show "\<exists>f bs. resolve (d_local_path d) = Some f \<and>
           files (fst (main_on env ds w)) f = Some bs \<and> bs \<noteq> []"
      by blast
  qed
  with main show "(\<forall>d\<in>set ds. \<exists>f. resolve (d_local_path d) = Some f \<and>
        (\<exists>d'\<in>set ds. \<exists>r. resolve (d_local_path d') = Some f \<and>
           http env (d_url d') = Inr r \<and>
           files (fst (main_on env ds w)) f = Some (body r)))
     \<and> ((\<forall>d\<in>set ds. \<forall>r. http env (d_url d) = Inr r \<longrightarrow> body r \<noteq> []) \<longrightarrow>
        (\<forall>d\<in>set ds. \<exists>f bs. resolve (d_local_path d) = Some f \<and>
           files (fst (main_on env ds w)) f = Some bs \<and> bs \<noteq> []))"
    by blast
qed

theorem successful_run_files_witness:
  "new_calls empty_world (fst (main_on (permissive example_server) [hd two_descriptors]
      empty_world)) = successful_calls [hd two_descriptors]
   \<and> http (permissive example_server) (d_url (hd two_descriptors))
       = Inr (ok_response [0xFF, 0xD8, 0xFF])
   \<and> body (ok_response [0xFF, 0xD8, 0xFF]) \<noteq> []
   \<and> files (fst (main_on (permissive example_server) [hd two_descriptors] empty_world))
        [''public'', ''images'', ''fallbacks'', ''a.jpg''] = Some [0xFF, 0xD8, 0xFF]
   \<and> (\<exists>f bs. resolve (d_local_path (hd two_descriptors)) = Some f \<and>
        files (fst (main_on (permissive example_server) [hd two_descriptors] empty_world)) f
          = Some bs \<and> bs \<noteq> [])"
proof -
  let ?env = "permissive example_server"
  let ?ds = "[hd two_descriptors]"
  have ok: "new_calls empty_world (fst (main_on ?env ?ds empty_world)) = successful_calls ?ds"
    unfolding new_calls_def main_on_one_example(1)
    by (simp add: empty_world_fields successful_calls_def call_of_def two_descriptors_def)
  have get: "http ?env (d_url (hd two_descriptors)) = Inr (ok_response [0xFF, 0xD8, 0xFF])"
    by (simp add: two_descriptors_def permissive_fields example_server_def)
  have b: "body (ok_response [0xFF, 0xD8, 0xFF]) \<noteq> []"
    by (simp add: ok_response_def)
  from get b have ne: "\<forall>d\<in>set ?ds. \<forall>r. http ?env (d_url d) = Inr r \<longrightarrow> body r \<noteq> []"
    by simp
  from successful_run_files [of empty_world ?env ?ds] ok ne
  have "\<forall>d\<in>set ?ds. \<exists>f bs. resolve (d_local_path d) = Some f \<and>
        files (fst (main_on ?env ?ds empty_world)) f = Some bs \<and> bs \<noteq> []"
    by blast
  then have "\<exists>f bs. resolve (d_local_path (hd two_descriptors)) = Some f \<and>
        files (fst (main_on ?env ?ds empty_world)) f = Some bs \<and> bs \<noteq> []"
    by simp
  with ok get b main_on_one_example(2) show ?thesis by blast
qed

subsection \<open>Auxiliary facts about makedirs\<close>


























subsection \<open>Running twice\<close>














end
